theory Spec2Isabelle
  imports Complex_Main "HOL-Library.Word"
begin

unbundle bit_operations_syntax

section \<open>JavaScript values\<close>

text \<open>
  The messages that cross the thread boundary and the objects the server inspects are
  plain JavaScript values. A number is a rational here (every finite double is one; NaN
  and the infinities are left out), a string is a list of 8-bit characters, and an object
  is the list of its own properties in insertion order.
\<close>

datatype jsval =
    JUndefined
  | JNull
  | JBool bool
  | JNum rat
  | JStr string
  | JObj "(string \<times> jsval) list"

fun typeof :: "jsval \<Rightarrow> string" where
  "typeof JUndefined = ''undefined''"
| "typeof JNull = ''object''"
| "typeof (JBool b) = ''boolean''"
| "typeof (JNum n) = ''number''"
| "typeof (JStr s) = ''string''"
| "typeof (JObj kvs) = ''object''"

datatype js_error =
    TypeError string
  | AssertionError string
  | SystemError string
  | ERR_CRYPTO_HASH_FINALIZED
  | ERR_HTTP_HEADERS_SENT

section \<open>The hash accumulator: \<^verbatim>\<open>crypto.createHash('sha256')\<close>\<close>

text \<open>
  The modules \<^verbatim>\<open>crypto\<close>, \<^verbatim>\<open>stream\<close> and \<^verbatim>\<open>readline\<close> belong to Node, not to the
  repository; what the worker script relies on is written out in this section and the
  next. \<^verbatim>\<open>log-processor.js\<close> only calls \<^verbatim>\<open>hash.update(data)\<close> and
  \<^verbatim>\<open>hash.digest('hex')\<close>. The accumulator is modelled by the bytes it has absorbed;
  the digest is SHA-256 (FIPS 180-4) of those bytes, written out below over 32-bit words.
\<close>

type_synonym word32 = "32 word"

definition rotr :: "nat \<Rightarrow> word32 \<Rightarrow> word32" where
  "rotr n x = (drop_bit n x) OR (push_bit (32 - n) x)"

definition Ch :: "word32 \<Rightarrow> word32 \<Rightarrow> word32 \<Rightarrow> word32" where
  "Ch x y z = (x AND y) XOR (NOT x AND z)"

definition Maj :: "word32 \<Rightarrow> word32 \<Rightarrow> word32 \<Rightarrow> word32" where
  "Maj x y z = (x AND y) XOR (x AND z) XOR (y AND z)"

definition bsig0 :: "word32 \<Rightarrow> word32" where
  "bsig0 x = rotr 2 x XOR rotr 13 x XOR rotr 22 x"

definition bsig1 :: "word32 \<Rightarrow> word32" where
  "bsig1 x = rotr 6 x XOR rotr 11 x XOR rotr 25 x"

definition ssig0 :: "word32 \<Rightarrow> word32" where
  "ssig0 x = rotr 7 x XOR rotr 18 x XOR drop_bit 3 x"

definition ssig1 :: "word32 \<Rightarrow> word32" where
  "ssig1 x = rotr 17 x XOR rotr 19 x XOR drop_bit 10 x"

text \<open>The round constants and the initial hash value of the standard, in decimal.\<close>

definition K256 :: "word32 list" where
  "K256 = [
   1116352408, 1899447441, 3049323471, 3921009573, 961987163, 1508970993,
   2453635748, 2870763221, 3624381080, 310598401, 607225278, 1426881987,
   1925078388, 2162078206, 2614888103, 3248222580, 3835390401, 4022224774,
   264347078, 604807628, 770255983, 1249150122, 1555081692, 1996064986,
   2554220882, 2821834349, 2952996808, 3210313671, 3336571891, 3584528711,
   113926993, 338241895, 666307205, 773529912, 1294757372, 1396182291,
   1695183700, 1986661051, 2177026350, 2456956037, 2730485921, 2820302411,
   3259730800, 3345764771, 3516065817, 3600352804, 4094571909, 275423344,
   430227734, 506948616, 659060556, 883997877, 958139571, 1322822218,
   1537002063, 1747873779, 1955562222, 2024104815, 2227730452, 2361852424,
   2428436474, 2756734187, 3204031479, 3329325298]"

definition H256 :: "word32 list" where
  "H256 = [1779033703, 3144134277, 1013904242, 2773480762,
           1359893119, 2600822924, 528734635, 1541459225]"

text \<open>Padding: the byte 0x80, zeros up to 56 modulo 64, and the bit length in 8 bytes.\<close>

definition sha_pad :: "string \<Rightarrow> word32 list" where
  "sha_pad bs =
     (let n = length bs; k = (119 - n mod 64) mod 64;
          bits = (word_of_nat (8 * n) :: 64 word)
      in map of_char bs @ [0x80] @ replicate k 0 @
         map (\<lambda>i. ucast (drop_bit (8 * (7 - i)) bits AND 0xFF)) [0..<8])"

fun be_words :: "word32 list \<Rightarrow> word32 list" where
  "be_words (a # b # c # d # rest) =
     (push_bit 24 a OR push_bit 16 b OR push_bit 8 c OR d) # be_words rest"
| "be_words _ = []"

text \<open>
  The message schedule is kept as a window of the last sixteen words: round \<open>t\<close> uses
  the head of the window and appends \<open>W\<^sub>t\<^sub>+\<^sub>1\<^sub>6\<close>.
\<close>

definition next_w :: "word32 list \<Rightarrow> word32" where
  "next_w w = ssig1 (w ! 14) + w ! 9 + ssig0 (w ! 1) + w ! 0"

fun sha_round :: "word32 list \<Rightarrow> word32 \<Rightarrow> word32 \<Rightarrow> word32 list" where
  "sha_round [a, b, c, d, e, f, g, h] k w =
     (let t1 = h + bsig1 e + Ch e f g + k + w;
          t2 = bsig0 a + Maj a b c
      in [t1 + t2, a, b, c, d + t1, e, f, g])"
| "sha_round v _ _ = v"

fun rounds :: "word32 list \<Rightarrow> word32 list \<Rightarrow> word32 list \<Rightarrow> word32 list" where
  "rounds [] v w = v"
| "rounds (k # ks) v w = rounds ks (sha_round v k (hd w)) (tl w @ [next_w w])"

definition compress :: "word32 list \<Rightarrow> word32 list \<Rightarrow> word32 list" where
  "compress hs blk = map2 (+) hs (rounds K256 hs blk)"

fun blocks :: "nat \<Rightarrow> word32 list \<Rightarrow> word32 list list" where
  "blocks 0 ws = []"
| "blocks (Suc n) ws = take 16 ws # blocks n (drop 16 ws)"

definition sha256 :: "string \<Rightarrow> word32 list" where
  "sha256 bs = (let ws = be_words (sha_pad bs)
                in foldl compress H256 (blocks (length ws div 16) ws))"

definition hex_digit :: "nat \<Rightarrow> char" where
  "hex_digit n = ''0123456789abcdef'' ! (n mod 16)"

definition hex_word :: "word32 \<Rightarrow> string" where
  "hex_word w = map (\<lambda>i. hex_digit (unat (drop_bit (4 * (7 - i)) w))) [0..<8]"

definition sha256_hex :: "string \<Rightarrow> string" where
  "sha256_hex bs = concat (map hex_word (sha256 bs))"

section \<open>The line reader: \<^verbatim>\<open>readline.createInterface\<close> on a pushed stream\<close>

subsection \<open>Decoding the pushed bytes\<close>

text \<open>
  \<^verbatim>\<open>readline\<close> decodes the stream's buffers with a UTF-8 \<^verbatim>\<open>StringDecoder\<close>, which holds
  back an incomplete multi-byte sequence until the following buffer completes it. It is
  modelled as the byte-at-a-time UTF-8 decoder: the state is the sequence under way, an
  ill-formed sequence yields U+FFFD. The payload bits of a byte are what is left of it
  above the start of its range (\<open>b - 0xC0\<close> for a lead byte \<open>0xC2..0xDF\<close>, \<open>b - 0x80\<close>
  for a continuation byte). A decoded string is the list of its code points.
\<close>

record utf8_state =
  code_point :: nat
  bytes_seen :: nat
  bytes_needed :: nat
  lower_boundary :: nat
  upper_boundary :: nat

definition utf8_init :: utf8_state where
  "utf8_init = \<lparr>code_point = 0, bytes_seen = 0, bytes_needed = 0,
                lower_boundary = 0x80, upper_boundary = 0xBF\<rparr>"

definition utf8_lead :: "nat \<Rightarrow> utf8_state \<times> nat list" where
  "utf8_lead b =
     (if b \<le> 0x7F then (utf8_init, [b])
      else if 0xC2 \<le> b \<and> b \<le> 0xDF then
        (utf8_init\<lparr>bytes_needed := 1, code_point := b - 0xC0\<rparr>, [])
      else if 0xE0 \<le> b \<and> b \<le> 0xEF then
        (utf8_init\<lparr>bytes_needed := 2, code_point := b - 0xE0,
                   lower_boundary := (if b = 0xE0 then 0xA0 else 0x80),
                   upper_boundary := (if b = 0xED then 0x9F else 0xBF)\<rparr>, [])
      else if 0xF0 \<le> b \<and> b \<le> 0xF4 then
        (utf8_init\<lparr>bytes_needed := 3, code_point := b - 0xF0,
                   lower_boundary := (if b = 0xF0 then 0x90 else 0x80),
                   upper_boundary := (if b = 0xF4 then 0x8F else 0xBF)\<rparr>, [])
      else (utf8_init, [0xFFFD]))"

definition utf8_step :: "utf8_state \<Rightarrow> nat \<Rightarrow> utf8_state \<times> nat list" where
  "utf8_step st b =
     (if bytes_needed st = 0 then utf8_lead b
      else if b < lower_boundary st \<or> upper_boundary st < b then
        (fst (utf8_lead b), 0xFFFD # snd (utf8_lead b))
      else if bytes_seen st + 1 = bytes_needed st then
        (utf8_init, [code_point st * 64 + (b - 0x80)])
      else
        (st\<lparr>code_point := code_point st * 64 + (b - 0x80),
            bytes_seen := bytes_seen st + 1,
            lower_boundary := 0x80, upper_boundary := 0xBF\<rparr>, []))"

fun utf8_write :: "utf8_state \<Rightarrow> string \<Rightarrow> utf8_state \<times> nat list" where
  "utf8_write st [] = (st, [])"
| "utf8_write st (b # bs) =
     (case utf8_step st (of_char b) of
        (st1, out1) \<Rightarrow> (case utf8_write st1 bs of (st2, out2) \<Rightarrow> (st2, out1 @ out2)))"

subsection \<open>Splitting into lines\<close>

text \<open>
  \<^verbatim>\<open>readline\<close> splits at the matches of \<^verbatim>\<open>/\r?\n|\r(?!\n)|\u2028|\u2029/g\<close>: a line
  feed, a carriage return (with the line feed that follows it in the same string, when
  there is one), U+2028 and U+2029.
\<close>

definition is_line_ending :: "nat \<Rightarrow> bool" where
  "is_line_ending c = (c = 10 \<or> c = 13 \<or> c = 0x2028 \<or> c = 0x2029)"

fun add_line :: "nat list \<Rightarrow> nat list list \<times> nat list \<Rightarrow> nat list list \<times> nat list" where
  "add_line l (ls, r) = (l # ls, r)"

text \<open>
  \<open>split_lines cur s\<close>: the lines that the successive matches in \<open>s\<close> complete (the
  first one continues \<open>cur\<close>), and the text after the last match.
\<close>

fun split_lines :: "nat list \<Rightarrow> nat list \<Rightarrow> nat list list \<times> nat list" where
  "split_lines cur [] = ([], cur)"
| "split_lines cur [c] = (if is_line_ending c then ([cur], []) else ([], cur @ [c]))"
| "split_lines cur (c # d # cs) =
     (if c = 13 \<and> d = 10 then add_line cur (split_lines [] cs)
      else if is_line_ending c then add_line cur (split_lines [] (d # cs))
      else split_lines (cur @ [c]) (d # cs))"

fun startsWith :: "'a list \<Rightarrow> 'a list \<Rightarrow> bool" where
  "startsWith s [] = True"
| "startsWith [] (p # ps) = False"
| "startsWith (c # cs) (p # ps) = (c = p \<and> startsWith cs ps)"

fun js_includes :: "'a list \<Rightarrow> 'a list \<Rightarrow> bool" where
  "js_includes [] p = (p = [])"
| "js_includes (c # cs) p = (startsWith (c # cs) p \<or> js_includes cs p)"

definition js_string :: "string \<Rightarrow> nat list" where
  "js_string s = map of_char s"

section \<open>The Analysis Worker: \<^verbatim>\<open>log-processor.js\<close>\<close>

text \<open>
  The module-level state of the worker script: the hash accumulator, the pushed stream,
  the \<^verbatim>\<open>readline\<close> interface on it (its decoder, its line buffer and whether the last
  string it saw ended in a carriage return), the two counters, and the messages posted to
  the parent. With \<^verbatim>\<open>crlfDelay: Infinity\<close> the time stamp \<^verbatim>\<open>kSawReturnAt\<close> is only
  tested for being set, so it is a flag here.
\<close>

record worker =
  hash_input :: string
  hash_finalized :: bool
  stream_ended :: bool
  decoder :: utf8_state
  line_buffer :: "nat list"
  sawReturn :: bool
  lineCount :: nat
  errorCount :: nat
  posted :: "jsval list"

definition init_worker :: worker where
  "init_worker = \<lparr>hash_input = [], hash_finalized = False, stream_ended = False,
                  decoder = utf8_init, line_buffer = [], sawReturn = False,
                  lineCount = 0, errorCount = 0, posted = []\<rparr>"

record message =
  type :: string
  data :: string

definition chunk_msg :: "string \<Rightarrow> message" where
  "chunk_msg bytes = \<lparr>type = ''chunk'', data = bytes\<rparr>"

definition end_msg :: message where
  "end_msg = \<lparr>type = ''end'', data = []\<rparr>"

text \<open>\<^verbatim>\<open>rl.on('line', ...)\<close>\<close>

definition on_line :: "worker \<Rightarrow> nat list \<Rightarrow> worker" where
  "on_line w line =
     (let w1 = w\<lparr>lineCount := lineCount w + 1\<rparr>
      in if js_includes line (js_string ''ERROR'') \<or> js_includes line (js_string ''CRITICAL'')
         then w1\<lparr>errorCount := errorCount w1 + 1\<rparr>
         else w1)"

text \<open>
  The interface's handler of a decoded string (\<^verbatim>\<open>kNormalWrite\<close>): a line feed right after
  a carriage return that ended the previous string is dropped; a string with a line
  ending is joined to the line buffer and split, the lines are emitted and the rest is
  the new buffer; a string with none is appended to the buffer.
\<close>

definition normalWrite :: "worker \<Rightarrow> nat list \<Rightarrow> worker" where
  "normalWrite w str0 =
     (let str = (if sawReturn w \<and> startsWith str0 [10] then tl str0 else str0);
          w1 = w\<lparr>sawReturn := False\<rparr>
      in if list_ex is_line_ending str then
           (let s = line_buffer w1 @ str
            in case split_lines [] s of
                 (lines, rest) \<Rightarrow>
                   foldl on_line (w1\<lparr>line_buffer := rest, sawReturn := (last s = 13)\<rparr>) lines)
         else if str \<noteq> [] then w1\<lparr>line_buffer := line_buffer w1 @ str\<rparr>
         else w1)"

text \<open>
  \<^verbatim>\<open>incomingStream.push(data)\<close>: an empty buffer raises no \<^verbatim>\<open>'data'\<close> event; any other
  one reaches the interface, which decodes it and handles the string.
\<close>

definition stream_push :: "worker \<Rightarrow> string \<Rightarrow> worker" where
  "stream_push w bytes =
     (if bytes = [] then w
      else (case utf8_write (decoder w) bytes of
              (st, str) \<Rightarrow> normalWrite (w\<lparr>decoder := st\<rparr>) str))"

definition report_msg :: "string \<Rightarrow> nat \<Rightarrow> nat \<Rightarrow> jsval" where
  "report_msg finalHash lc ec =
     JObj [(''status'', JStr ''success''), (''finalHash'', JStr finalHash),
           (''lineCount'', JNum (of_nat lc)), (''errorCount'', JNum (of_nat ec))]"

text \<open>\<^verbatim>\<open>rl.on('close', ...)\<close>: the digest is taken and the report is posted.\<close>

definition on_close :: "worker \<Rightarrow> worker" where
  "on_close w =
     w\<lparr>hash_finalized := True,
       posted := posted w @ [report_msg (sha256_hex (hash_input w)) (lineCount w) (errorCount w)]\<rparr>"

text \<open>
  \<^verbatim>\<open>incomingStream.push(null)\<close>: the end of the stream. The interface emits what is left
  in its line buffer as a last line when that is not empty, and closes. A second
  \<^verbatim>\<open>push(null)\<close> on an ended stream does nothing.
\<close>

definition stream_end :: "worker \<Rightarrow> worker" where
  "stream_end w =
     (if stream_ended w then w
      else (let w1 = w\<lparr>stream_ended := True\<rparr>;
                w2 = (if line_buffer w1 \<noteq> [] then on_line w1 (line_buffer w1) else w1)
            in on_close w2))"

text \<open>
  \<^verbatim>\<open>parentPort.on('message', ...)\<close>. \<^verbatim>\<open>hash.update\<close> throws once the digest has been
  taken; the exception is uncaught and ends the worker.
\<close>

definition on_message :: "worker \<Rightarrow> message \<Rightarrow> js_error + worker" where
  "on_message w m =
     (if type m = ''chunk'' then
        (if hash_finalized w then Inl ERR_CRYPTO_HASH_FINALIZED
         else Inr (stream_push (w\<lparr>hash_input := hash_input w @ data m\<rparr>) (data m)))
      else if type m = ''end'' then Inr (stream_end w)
      else Inr w)"

fun run :: "worker \<Rightarrow> message list \<Rightarrow> js_error + worker" where
  "run w [] = Inr w"
| "run w (m # ms) = (case on_message w m of Inl e \<Rightarrow> Inl e | Inr w' \<Rightarrow> run w' ms)"

section \<open>The Request Server: the \<^verbatim>\<open>/upload\<close> branch of \<^verbatim>\<open>server.js\<close>\<close>

text \<open>
  What a request handler can touch: the file system (the directories made and the files
  written), the response of the request at hand (\<open>None\<close> until \<^verbatim>\<open>writeHead\<close> and
  \<^verbatim>\<open>end\<close> have been called), the messages posted to the request's worker thread that
  it has not received yet, whether \<^verbatim>\<open>logProcessorWorker.terminate()\<close> has been called,
  and whether the worker thread of the request is running.
  A body or a file content is either a text or \<^verbatim>\<open>JSON.stringify(v, null, n)\<close>, kept as
  \<open>Json v n\<close>.
\<close>

datatype payload = Text string | Json jsval nat

record response =
  statusCode :: nat
  contentType :: string
  body :: payload

record server =
  dirs :: "string set"
  files :: "string \<rightharpoonup> payload"
  res :: "response option"
  to_worker :: "message list"
  terminated :: bool
  worker_alive :: bool

definition init_server :: server where
  "init_server = \<lparr>dirs = {}, files = Map.empty, res = None, to_worker = [], terminated = False,
                  worker_alive = False\<rparr>"

text \<open>
  The file system calls can fail; whether \<^verbatim>\<open>fsp.mkdir\<close> and \<^verbatim>\<open>fsp.writeFile\<close> do, and
  with which message, is given from outside.
\<close>

record fs_faults =
  mkdir_error :: "string option"
  writeFile_error :: "string option"

definition no_faults :: fs_faults where
  "no_faults = \<lparr>mkdir_error = None, writeFile_error = None\<rparr>"

fun message_of :: "js_error \<Rightarrow> string" where
  "message_of (TypeError m) = m"
| "message_of (AssertionError m) = m"
| "message_of (SystemError m) = m"
| "message_of ERR_CRYPTO_HASH_FINALIZED = ''Digest already called''"
| "message_of ERR_HTTP_HEADERS_SENT = ''Cannot set headers after they are sent to the client''"

fun is_AssertionError :: "js_error \<Rightarrow> bool" where
  "is_AssertionError (AssertionError m) = True"
| "is_AssertionError e = False"

text \<open>
  Reading one of the properties \<^verbatim>\<open>status\<close>, \<^verbatim>\<open>finalHash\<close>, \<^verbatim>\<open>lineCount\<close> of a
  received message: a \<^verbatim>\<open>TypeError\<close> on \<^verbatim>\<open>null\<close> and \<^verbatim>\<open>undefined\<close>,
  \<^verbatim>\<open>undefined\<close> on a boolean, a number or a string (which have none of the three).
\<close>

fun get_prop :: "jsval \<Rightarrow> string \<Rightarrow> js_error + jsval" where
  "get_prop JUndefined k =
     Inl (TypeError (''Cannot read properties of undefined (reading '' @ [CHR 0x27] @ k @ [CHR 0x27] @ '')''))"
| "get_prop JNull k =
     Inl (TypeError (''Cannot read properties of null (reading '' @ [CHR 0x27] @ k @ [CHR 0x27] @ '')''))"
| "get_prop (JObj kvs) k = Inr (case map_of kvs k of Some v \<Rightarrow> v | None \<Rightarrow> JUndefined)"
| "get_prop v k = Inr JUndefined"

fun js_length :: "jsval \<Rightarrow> nat" where
  "js_length (JStr s) = length s"
| "js_length v = 0"

fun js_to_string :: "jsval \<Rightarrow> string" where
  "js_to_string (JStr s) = s"
| "js_to_string v = []"

text \<open>The four assertions of the \<^verbatim>\<open>'message'\<close> listener, in their order.\<close>

definition validate :: "jsval \<Rightarrow> js_error + unit" where
  "validate report =
     (case get_prop report ''status'' of
        Inl e \<Rightarrow> Inl e
      | Inr status \<Rightarrow>
          if status \<noteq> JStr ''success'' then
            Inl (AssertionError ''Worker report status not success'')
          else
            (case get_prop report ''finalHash'' of
               Inl e \<Rightarrow> Inl e
             | Inr finalHash \<Rightarrow>
                 if typeof finalHash \<noteq> ''string'' then
                   Inl (AssertionError ''Invalid hash type'')
                 else if \<not> 10 < js_length finalHash then
                   Inl (AssertionError ''Invalid hash length'')
                 else
                   (case get_prop report ''lineCount'' of
                      Inl e \<Rightarrow> Inl e
                    | Inr lc \<Rightarrow>
                        if typeof lc \<noteq> ''number'' then
                          Inl (AssertionError ''Invalid lineCount type'')
                        else Inr ())))"

text \<open>
  \<^verbatim>\<open>path.join(REPORTS_DIR, reportFileName)\<close> joins the two with a separator and
  normalises the result. Its first argument here is \<^verbatim>\<open>REPORTS_DIR\<close>, itself
  \<^verbatim>\<open>path.join(__dirname, 'reports')\<close>: an absolute, normalised path that does not end in a
  separator. For such a first argument the result is the directory with the segments of
  the name resolved against it: an empty segment and \<^verbatim>\<open>.\<close> are dropped, \<^verbatim>\<open>..\<close> removes
  the last segment (none at the root), any other segment is appended; a name that ends
  in a separator leaves one at the end.
\<close>

fun split_path :: "string \<Rightarrow> string list" where
  "split_path [] = [[]]"
| "split_path (c # cs) =
     (if c = CHR ''/'' then [] # split_path cs
      else (case split_path cs of s # ss \<Rightarrow> (c # s) # ss | [] \<Rightarrow> [[c]]))"

definition parent_path :: "string \<Rightarrow> string" where
  "parent_path p = rev (tl (dropWhile (\<lambda>c. c \<noteq> CHR ''/'') (rev p)))"

fun resolve :: "string \<Rightarrow> string list \<Rightarrow> string" where
  "resolve p [] = p"
| "resolve p (s # ss) =
     (if s = [] \<or> s = ''.'' then resolve p ss
      else if s = ''..'' then resolve (parent_path p) ss
      else resolve (p @ ''/'' @ s) ss)"

definition path_join :: "string \<Rightarrow> string \<Rightarrow> string" where
  "path_join dir name =
     (let p = resolve dir (split_path name)
      in if p = [] then ''/''
         else if name \<noteq> [] \<and> last name = CHR ''/'' then p @ ''/''
         else p)"

text \<open>\<^verbatim>\<open>{ ...report, reportPath }\<close>: the report's own properties, then \<^verbatim>\<open>reportPath\<close>.\<close>

fun set_prop :: "(string \<times> jsval) list \<Rightarrow> string \<Rightarrow> jsval \<Rightarrow> (string \<times> jsval) list" where
  "set_prop [] k v = [(k, v)]"
| "set_prop ((k', v') # kvs) k v =
     (if k' = k then (k, v) # kvs else (k', v') # set_prop kvs k v)"

fun own_props :: "jsval \<Rightarrow> (string \<times> jsval) list" where
  "own_props (JObj kvs) = kvs"
| "own_props v = []"

text \<open>\<^verbatim>\<open>res.writeHead(...)\<close> and \<^verbatim>\<open>res.end(...)\<close>; a second \<^verbatim>\<open>writeHead\<close> throws.\<close>

definition respond :: "server \<Rightarrow> response \<Rightarrow> js_error + server" where
  "respond srv r =
     (if res srv = None then Inr (srv\<lparr>res := Some r\<rparr>) else Inl ERR_HTTP_HEADERS_SENT)"

text \<open>
  The \<^verbatim>\<open>try\<close> block of the \<^verbatim>\<open>'message'\<close> listener: the state where it stops, and the
  exception it stops with, if any.
\<close>

definition try_report :: "string \<Rightarrow> fs_faults \<Rightarrow> server \<Rightarrow> jsval \<Rightarrow> server \<times> js_error option" where
  "try_report REPORTS_DIR io srv report =
     (case validate report of
        Inl e \<Rightarrow> (srv, Some e)
      | Inr u \<Rightarrow>
          (let reportFileName =
                 js_to_string (case get_prop report ''finalHash'' of Inr h \<Rightarrow> h | Inl e \<Rightarrow> JUndefined)
                 @ ''.json'';
               reportPath = path_join REPORTS_DIR reportFileName;
               reportContent = Json report 2
           in case mkdir_error io of
                Some m \<Rightarrow> (srv, Some (SystemError m))
              | None \<Rightarrow>
                  (let srv1 = srv\<lparr>dirs := insert REPORTS_DIR (dirs srv)\<rparr>
                   in case writeFile_error io of
                        Some m \<Rightarrow> (srv1, Some (SystemError m))
                      | None \<Rightarrow>
                          (let srv2 = srv1\<lparr>files := (files srv1)(reportPath \<mapsto> reportContent)\<rparr>
                           in case respond srv2
                                     \<lparr>statusCode = 200, contentType = ''application/json'',
                                      body = Json (JObj (set_prop (own_props report) ''reportPath''
                                                           (JStr reportPath))) 0\<rparr> of
                                Inl e \<Rightarrow> (srv2, Some e)
                              | Inr srv3 \<Rightarrow> (srv3, None)))))"

text \<open>\<^verbatim>\<open>logProcessorWorker.on('message', ...)\<close>: the \<^verbatim>\<open>try\<close> block and its \<^verbatim>\<open>catch\<close>.\<close>

definition on_report :: "string \<Rightarrow> fs_faults \<Rightarrow> server \<Rightarrow> jsval \<Rightarrow> js_error + server" where
  "on_report REPORTS_DIR io srv report =
     (case try_report REPORTS_DIR io srv report of
        (srv', None) \<Rightarrow> Inr srv'
      | (srv', Some err) \<Rightarrow>
          respond srv'
            \<lparr>statusCode = (if is_AssertionError err then 400 else 500),
             contentType = ''text/plain'',
             body = Text (''Failed to process report: '' @ message_of err)\<rparr>)"

text \<open>\<^verbatim>\<open>req.on('data', ...)\<close> and \<^verbatim>\<open>req.on('end', ...)\<close>\<close>

definition on_data :: "server \<Rightarrow> string \<Rightarrow> server" where
  "on_data srv chunk = srv\<lparr>to_worker := to_worker srv @ [chunk_msg chunk]\<rparr>"

definition on_end :: "server \<Rightarrow> server" where
  "on_end srv = srv\<lparr>to_worker := to_worker srv @ [end_msg]\<rparr>"

text \<open>
  \<^verbatim>\<open>req.on('error', ...)\<close> and \<^verbatim>\<open>logProcessorWorker.on('error', ...)\<close>. A call of
  \<^verbatim>\<open>terminate()\<close> stops the worker thread.
\<close>

definition on_req_error :: "server \<Rightarrow> js_error + server" where
  "on_req_error srv =
     respond (srv\<lparr>terminated := True, worker_alive := False\<rparr>)
       \<lparr>statusCode = 500, contentType = ''text/plain'', body = Text ''Request stream error.''\<rparr>"

definition on_worker_error :: "server \<Rightarrow> js_error + server" where
  "on_worker_error srv =
     respond srv
       \<lparr>statusCode = 500, contentType = ''text/plain'', body = Text ''Processing error.''\<rparr>"

text \<open>
  A fault of the worker: the \<^verbatim>\<open>'error'\<close> event of a \<^verbatim>\<open>Worker\<close> is emitted when its
  thread throws an uncaught exception, and Node has terminated the worker when it emits
  the event. So the thread has stopped when the listener runs.
\<close>

definition worker_fault :: "server \<Rightarrow> js_error + server" where
  "worker_fault srv = on_worker_error (srv\<lparr>worker_alive := False\<rparr>)"

text \<open>
  One upload from its first byte to its response: a worker is started, the body arrives
  in \<open>chunks\<close>, each is posted to the worker, then the end message; the worker handles
  the messages in the order they were posted; each message it posts back is handled by
  the \<^verbatim>\<open>'message'\<close> listener, and an uncaught exception in it is a fault of the worker.
\<close>

fun deliver :: "string \<Rightarrow> fs_faults \<Rightarrow> server \<Rightarrow> jsval list \<Rightarrow> js_error + server" where
  "deliver REPORTS_DIR io srv [] = Inr srv"
| "deliver REPORTS_DIR io srv (r # rs) =
     (case on_report REPORTS_DIR io srv r of
        Inl e \<Rightarrow> Inl e
      | Inr srv' \<Rightarrow> deliver REPORTS_DIR io srv' rs)"

definition upload :: "string \<Rightarrow> fs_faults \<Rightarrow> server \<Rightarrow> string list \<Rightarrow> js_error + server" where
  "upload REPORTS_DIR io srv chunks =
     (let srv1 = on_end (foldl on_data (srv\<lparr>res := None, to_worker := [], terminated := False,
                                             worker_alive := True\<rparr>) chunks);
          srv2 = srv1\<lparr>to_worker := []\<rparr>
      in case run init_worker (to_worker srv1) of
           Inl e \<Rightarrow> worker_fault srv2
         | Inr w \<Rightarrow> deliver REPORTS_DIR io srv2 (posted w))"




text \<open>
  The body of a rejection in the words of the specification: a JSON object with the one
  property \<^verbatim>\<open>error\<close>.
\<close>

fun is_error_json :: "payload \<Rightarrow> bool" where
  "is_error_json (Json (JObj [(k, v)]) n) = (k = ''error'')"
| "is_error_json p = False"

section \<open>The analysis as a function of the whole byte sequence\<close>

text \<open>
  What the worker computes, stated without chunks, for the proofs: the decoded text is
  scanned one code point at a time, a flag remembering a carriage return that has just
  ended a line.
\<close>

definition is_error_line :: "nat list \<Rightarrow> bool" where
  "is_error_line l = (js_includes l (js_string ''ERROR'') \<or> js_includes l (js_string ''CRITICAL''))"

fun add_line3 :: "nat list \<Rightarrow> nat list list \<times> nat list \<times> bool \<Rightarrow> nat list list \<times> nat list \<times> bool" where
  "add_line3 l (ls, b, r) = (l # ls, b, r)"

fun scan :: "nat list \<Rightarrow> bool \<Rightarrow> nat list \<Rightarrow> nat list list \<times> nat list \<times> bool" where
  "scan buf cr [] = ([], buf, cr)"
| "scan buf cr (c # cs) =
     (if c = 10 \<and> cr then scan buf False cs
      else if is_line_ending c then add_line3 buf (scan [] (c = 13) cs)
      else scan (buf @ [c]) False cs)"

text \<open>All the lines of a byte sequence: those ended by a line ending, and a non-empty rest.\<close>

definition all_lines :: "string \<Rightarrow> nat list list" where
  "all_lines B =
     (case scan [] False (snd (utf8_write utf8_init B)) of
        (ls, buf, cr) \<Rightarrow> if buf = [] then ls else ls @ [buf])"

text \<open>The report for a byte sequence.\<close>

definition analysis :: "string \<Rightarrow> jsval" where
  "analysis B =
     report_msg (sha256_hex B) (length (all_lines B))
       (length (filter is_error_line (all_lines B)))"

text \<open>
  A multi-byte sequence under way decodes to a code point of at least 64: either some
  payload bit is set already, or the sequence started with \<open>0xE0\<close> or \<open>0xF0\<close> and at
  least two bytes are to come, the next one \<open>0x90\<close> or more.
\<close>

definition dec_inv :: "utf8_state \<Rightarrow> bool" where
  "dec_inv st =
     (bytes_needed st = 0 \<or>
      ((1 \<le> code_point st \<or> (bytes_seen st + 1 < bytes_needed st \<and> 0x90 \<le> lower_boundary st)) \<and>
       0x80 \<le> lower_boundary st \<and> upper_boundary st \<le> 0xBF))"

text \<open>
  The state of a worker that has received the bytes \<open>B\<close>, in any chunks, and no end
  message. Its carriage-return flag may have been cleared by a buffer that decoded to
  nothing; then a multi-byte sequence is under way.
\<close>

definition tracks :: "worker \<Rightarrow> string \<Rightarrow> bool" where
  "tracks w B =
     (case utf8_write utf8_init B of
        (dec, tx) \<Rightarrow>
          (case scan [] False tx of
             (ls, buf, cr) \<Rightarrow>
               hash_input w = B \<and> hash_finalized w = False \<and> stream_ended w = False \<and>
               posted w = [] \<and> decoder w = dec \<and> line_buffer w = buf \<and>
               lineCount w = length ls \<and>
               errorCount w = length (filter is_error_line ls) \<and>
               (sawReturn w = cr \<or> (sawReturn w = False \<and> bytes_needed dec \<noteq> 0))))"

text \<open>
  One state of the worker follows another when neither counter has gone down and the
  error count has gone up by no more than the line count.
\<close>

definition grows :: "worker \<Rightarrow> worker \<Rightarrow> bool" where
  "grows w w' =
     (lineCount w \<le> lineCount w' \<and> errorCount w \<le> errorCount w' \<and>
      errorCount w' + lineCount w \<le> lineCount w' + errorCount w)"

section \<open>Properties of the Analysis Worker\<close>

subsection \<open>The digest of the empty byte string\<close>

text \<open>
  The one block of the padded empty message is taken through the 64 rounds eight rounds
  at a time; the result is the digest that the standard gives for the empty message.
\<close>

lemmas sha_eval = next_w_def rotr_def Ch_def Maj_def bsig0_def bsig1_def ssig0_def ssig1_def Let_def

lemma rounds_stage1:
  "rounds (1116352408 # 1899447441 # 3049323471 # 3921009573
      # 961987163 # 1508970993 # 2453635748 # 2870763221 # ks)
     [1779033703, 3144134277, 1013904242, 2773480762, 1359893119, 2600822924,
      528734635, 1541459225]
     [2147483648, 0, 0, 0, 0, 0, 0, 0, 0, 0, 0, 0, 0, 0, 0, 0] =
   rounds ks
     [2060825014, 4028650896, 690895682, 1130821424, 1408847307, 2196627567,
      1332035834, 3889194014]
     [0, 0, 0, 0, 0, 0, 0, 0, 2147483648, 0, 2117632, 0, 570427392, 0, 84448578,
      2147483648]"
  apply (simp add: sha_eval)
  apply (rule arg_cong2 [where f = "rounds ks"])
   apply simp_all
  done

lemma rounds_stage2:
  "rounds (3624381080 # 310598401 # 607225278 # 1426881987
      # 1925078388 # 2162078206 # 2614888103 # 3248222580 # ks)
     [2060825014, 4028650896, 690895682, 1130821424, 1408847307, 2196627567,
      1332035834, 3889194014]
     [0, 0, 0, 0, 0, 0, 0, 0, 2147483648, 0, 2117632, 0, 570427392, 0, 84448578,
      2147483648] =
   rounds ks
     [3019933109, 3096116699, 1170215847, 553833165, 1555621987, 483372089,
      725774998, 3455974994]
     [2147483648, 0, 2117632, 0, 570427392, 0, 84448578, 2147483648, 1476919296,
      4235264, 1451269, 1711282176, 3592562048, 337794312, 3594910044, 3374850048]"
  apply (simp add: sha_eval)
  apply (rule arg_cong2 [where f = "rounds ks"])
   apply simp_all
  done

lemma rounds_stage3:
  "rounds (3835390401 # 4022224774 # 264347078 # 604807628
      # 770255983 # 1249150122 # 1555081692 # 1996064986 # ks)
     [3019933109, 3096116699, 1170215847, 553833165, 1555621987, 483372089,
      725774998, 3455974994]
     [2147483648, 0, 2117632, 0, 570427392, 0, 84448578, 2147483648, 1476919296,
      4235264, 1451269, 1711282176, 3592562048, 337794312, 3594910044, 3374850048] =
   rounds ks
     [2556161365, 1078820948, 2577845017, 1976037592, 741081741, 2976200464,
      3263666206, 966081741]
     [1476919296, 4235264, 1451269, 1711282176, 3592562048, 337794312,
      3594910044, 3374850048, 3287351444, 676112230, 109604294, 2742808854,
      1904000662, 4274181962, 2813755136, 2165675682]"
  apply (simp add: sha_eval)
  apply (rule arg_cong2 [where f = "rounds ks"])
   apply simp_all
  done

lemma rounds_stage4:
  "rounds (2554220882 # 2821834349 # 2952996808 # 3210313671
      # 3336571891 # 3584528711 # 113926993 # 338241895 # ks)
     [2556161365, 1078820948, 2577845017, 1976037592, 741081741, 2976200464,
      3263666206, 966081741]
     [1476919296, 4235264, 1451269, 1711282176, 3592562048, 337794312,
      3594910044, 3374850048, 3287351444, 676112230, 109604294, 2742808854,
      1904000662, 4274181962, 2813755136, 2165675682] =
   rounds ks
     [300352095, 2696613087, 1926471693, 1690082844, 3151463532, 1447716390,
      2957685293, 2506713973]
     [3287351444, 676112230, 109604294, 2742808854, 1904000662, 4274181962,
      2813755136, 2165675682, 2561075048, 62000258, 1562224585, 2975250741,
      3286092305, 614207615, 3297584367, 1575308336]"
  apply (simp add: sha_eval)
  apply (rule arg_cong2 [where f = "rounds ks"])
   apply simp_all
  done

lemma rounds_stage5:
  "rounds (666307205 # 773529912 # 1294757372 # 1396182291
      # 1695183700 # 1986661051 # 2177026350 # 2456956037 # ks)
     [300352095, 2696613087, 1926471693, 1690082844, 3151463532, 1447716390,
      2957685293, 2506713973]
     [3287351444, 676112230, 109604294, 2742808854, 1904000662, 4274181962,
      2813755136, 2165675682, 2561075048, 62000258, 1562224585, 2975250741,
      3286092305, 614207615, 3297584367, 1575308336] =
   rounds ks
     [1234768305, 2656625711, 1457773646, 2694206301, 1902882853, 2242319396,
      3892832895, 4206914285]
     [2561075048, 62000258, 1562224585, 2975250741, 3286092305, 614207615,
      3297584367, 1575308336, 3741240933, 748767245, 1008022316, 30329261,
      369937616, 195877528, 907775968, 3526495142]"
  apply (simp add: sha_eval)
  apply (rule arg_cong2 [where f = "rounds ks"])
   apply simp_all
  done

lemma rounds_stage6:
  "rounds (2730485921 # 2820302411 # 3259730800 # 3345764771
      # 3516065817 # 3600352804 # 4094571909 # 275423344 # ks)
     [1234768305, 2656625711, 1457773646, 2694206301, 1902882853, 2242319396,
      3892832895, 4206914285]
     [2561075048, 62000258, 1562224585, 2975250741, 3286092305, 614207615,
      3297584367, 1575308336, 3741240933, 748767245, 1008022316, 30329261,
      369937616, 195877528, 907775968, 3526495142] =
   rounds ks
     [911881421, 1419259244, 855262251, 2752082644, 3417569515, 2322236082,
      3531982457, 2855016464]
     [3741240933, 748767245, 1008022316, 30329261, 369937616, 195877528,
      907775968, 3526495142, 43741191, 1967544444, 133517113, 4161330627,
      3704256008, 1581412744, 1153231965, 996066459]"
  apply (simp add: sha_eval)
  apply (rule arg_cong2 [where f = "rounds ks"])
   apply simp_all
  done

lemma rounds_stage7:
  "rounds (430227734 # 506948616 # 659060556 # 883997877
      # 958139571 # 1322822218 # 1537002063 # 1747873779 # ks)
     [911881421, 1419259244, 855262251, 2752082644, 3417569515, 2322236082,
      3531982457, 2855016464]
     [3741240933, 748767245, 1008022316, 30329261, 369937616, 195877528,
      907775968, 3526495142, 43741191, 1967544444, 133517113, 4161330627,
      3704256008, 1581412744, 1153231965, 996066459] =
   rounds ks
     [23298068, 749689034, 974034039, 2981272720, 2918796810, 3850954136,
      4254700398, 1134943992]
     [43741191, 1967544444, 133517113, 4161330627, 3704256008, 1581412744,
      1153231965, 996066459, 2378657164, 43534273, 2009316420, 2609564739,
      634078299, 3041947233, 288713463, 1830996369]"
  apply (simp add: sha_eval)
  apply (rule arg_cong2 [where f = "rounds ks"])
   apply simp_all
  done

lemma rounds_stage8:
  "rounds (1955562222 # 2024104815 # 2227730452 # 2361852424
      # 2428436474 # 2756734187 # 3204031479 # 3329325298 # ks)
     [23298068, 749689034, 974034039, 2981272720, 2918796810, 3850954136,
      4254700398, 1134943992]
     [43741191, 1967544444, 133517113, 4161330627, 3704256008, 1581412744,
      1153231965, 996066459, 2378657164, 43534273, 2009316420, 2609564739,
      634078299, 3041947233, 288713463, 1830996369] =
   rounds ks
     [2040978907, 3717492111, 1586299222, 4095722474, 3600805733, 3382061760,
      2232532848, 477227836]
     [2378657164, 43534273, 2009316420, 2609564739, 634078299, 3041947233,
      288713463, 1830996369, 2108832412, 1277881035, 2902781278, 3718698087,
      73499588, 2836008653, 599194775, 3546702457]"
  apply (simp add: sha_eval)
  apply (rule arg_cong2 [where f = "rounds ks"])
   apply simp_all
  done

lemma rounds_empty_block:
  "rounds K256 H256 [2147483648, 0, 0, 0, 0, 0, 0, 0, 0, 0, 0, 0, 0, 0, 0, 0] =
     [2040978907, 3717492111, 1586299222, 4095722474, 3600805733, 3382061760,
      2232532848, 477227836]"
  unfolding K256_def H256_def
  by (simp only: rounds_stage1 rounds_stage2 rounds_stage3 rounds_stage4
                 rounds_stage5 rounds_stage6 rounds_stage7 rounds_stage8 rounds.simps(1))

lemma pad_empty:
  "be_words (sha_pad []) = [2147483648, 0, 0, 0, 0, 0, 0, 0, 0, 0, 0, 0, 0, 0, 0, 0]"
proof -
  have k: "(119 - length ([] :: string) mod 64) mod 64 = 55" by simp
  have r: "replicate 55 (0 :: word32) = [0, 0, 0, 0, 0, 0, 0, 0, 0, 0, 0, 0, 0, 0, 0, 0, 0, 0, 0,
      0, 0, 0, 0, 0, 0, 0, 0, 0, 0, 0, 0, 0, 0, 0, 0, 0, 0, 0, 0, 0, 0, 0, 0, 0, 0, 0, 0, 0, 0, 0,
      0, 0, 0, 0, 0]"
    by (simp add: numeral_eq_Suc)
  show ?thesis
    unfolding sha_pad_def Let_def k r by (simp add: upt_rec)
qed

lemma blocks_one:
  "blocks (length [a0, a1, a2, a3, a4, a5, a6, a7, a8, a9, a10, a11, a12, a13, a14, a15 :: word32] div 16)
     [a0, a1, a2, a3, a4, a5, a6, a7, a8, a9, a10, a11, a12, a13, a14, a15] =
   [[a0, a1, a2, a3, a4, a5, a6, a7, a8, a9, a10, a11, a12, a13, a14, a15]]"
  by simp

lemma sha256_empty:
  "sha256 [] = [3820012610, 2566659092, 2600203464, 2574235940, 665731556, 1687917388,
                2761267483, 2018687061]"
  unfolding sha256_def Let_def pad_empty blocks_one
  by (simp add: compress_def rounds_empty_block) (simp add: H256_def)

lemma sha256_hex_empty:
  "sha256_hex [] = ''e3b0c44298fc1c149afbf4c8996fb92427ae41e4649b934ca495991b7852b855''"
  by (simp add: sha256_hex_def sha256_empty hex_word_def hex_digit_def upt_rec)

lemmas worker_eval = on_message_def chunk_msg_def end_msg_def init_worker_def
  stream_push_def utf8_step_def utf8_lead_def utf8_init_def normalWrite_def
  is_line_ending_def on_line_def js_string_def stream_end_def on_close_def Let_def

lemma on_line_lineCount: "lineCount (on_line w l) = lineCount w + 1"
  by (simp add: on_line_def Let_def)

lemma on_line_errorCount:
  "errorCount (on_line w l) = errorCount w \<or> errorCount (on_line w l) = errorCount w + 1"
  by (simp add: on_line_def Let_def)

lemma foldl_on_line_counts:
  "lineCount (foldl on_line w ls) = lineCount w + length ls \<and>
   errorCount w \<le> errorCount (foldl on_line w ls) \<and>
   errorCount (foldl on_line w ls) \<le> errorCount w + length ls"
proof (induction ls arbitrary: w)
  case Nil
  show ?case by simp
next
  case (Cons l ls)
  from Cons.IH [of "on_line w l"] on_line_errorCount [of w l]
  show ?case by (auto simp: on_line_lineCount)
qed

lemma grows_refl: "grows w w"
  by (simp add: grows_def)

lemma grows_foldl: "lineCount w0 = lineCount w \<Longrightarrow> errorCount w0 = errorCount w \<Longrightarrow> grows w0 (foldl on_line w ls)"
  using foldl_on_line_counts [of w ls] by (simp add: grows_def)

lemma grows_normalWrite: "grows w (normalWrite w s)"
  by (auto simp: normalWrite_def Let_def grows_refl split: prod.splits intro!: grows_foldl)
     (simp_all add: grows_def)

lemma grows_stream_push: "lineCount w0 = lineCount w \<Longrightarrow> errorCount w0 = errorCount w \<Longrightarrow> grows w0 (stream_push w bs)"
  using grows_normalWrite[of "w\<lparr>decoder := fst (utf8_write (decoder w) bs)\<rparr>" "snd (utf8_write (decoder w) bs)"]
  by (auto simp: stream_push_def grows_def split: prod.splits)

lemma grows_stream_end: "grows w (stream_end w)"
  using on_line_errorCount [of "w\<lparr>stream_ended := True\<rparr>" "line_buffer w"]
  by (auto simp: stream_end_def on_close_def Let_def grows_def on_line_lineCount)

lemma grows_on_message: "on_message w m = Inr w' \<Longrightarrow> grows w w'"
  by (auto simp: on_message_def grows_refl grows_stream_end split: if_splits intro!: grows_stream_push)

lemma grows_inv: "grows w w' \<Longrightarrow> errorCount w \<le> lineCount w \<Longrightarrow> errorCount w' \<le> lineCount w'"
  by (simp add: grows_def)

lemma run_inv: "run w ms = Inr w' \<Longrightarrow> errorCount w \<le> lineCount w \<Longrightarrow> errorCount w' \<le> lineCount w'"
proof (induction ms arbitrary: w)
  case Nil
  then show ?case by simp
next
  case (Cons m ms)
  then show ?case
    by (auto split: sum.splits dest!: grows_on_message dest: grows_inv)
qed

text \<open>
  Claim C9. Both counters start at 0; a line adds exactly 1 to \<open>lineCount\<close> and 0 or 1 to
  \<open>errorCount\<close>; handling a message lowers neither counter and keeps
  \<open>errorCount \<le> lineCount\<close>; so after each step of every sequence of messages the
  worker handles, \<open>0 \<le> errorCount \<le> lineCount\<close> (the counters are natural numbers).
\<close>

theorem counters_invariant:
  "lineCount init_worker = 0 \<and> errorCount init_worker = 0 \<and>
   lineCount (on_line w l) = lineCount w + 1 \<and>
   (errorCount (on_line w l) = errorCount w \<or> errorCount (on_line w l) = errorCount w + 1) \<and>
   (on_message w m = Inr w' \<longrightarrow>
      lineCount w \<le> lineCount w' \<and> errorCount w \<le> errorCount w' \<and>
      (errorCount w \<le> lineCount w \<longrightarrow> errorCount w' \<le> lineCount w')) \<and>
   (\<forall>n v. run init_worker (take n ms) = Inr v \<longrightarrow> errorCount v \<le> lineCount v)"
proof -
  have a: "lineCount init_worker = 0 \<and> errorCount init_worker = 0"
    by (simp add: init_worker_def)
  have b: "on_message w m = Inr w' \<longrightarrow>
      lineCount w \<le> lineCount w' \<and> errorCount w \<le> errorCount w' \<and>
      (errorCount w \<le> lineCount w \<longrightarrow> errorCount w' \<le> lineCount w')"
    using grows_on_message [of w m w'] by (auto simp: grows_def)
  have c: "\<forall>n v. run init_worker (take n ms) = Inr v \<longrightarrow> errorCount v \<le> lineCount v"
    using run_inv [of init_worker] a by auto
  from a b c on_line_lineCount [of w l] on_line_errorCount [of w l] show ?thesis by blast
qed

theorem counters_invariant_witness:
  "\<exists>w' v. on_message init_worker (chunk_msg ''ok\<newline>ERROR x\<newline>'') = Inr w' \<and>
     lineCount init_worker \<le> lineCount w' \<and> errorCount init_worker \<le> errorCount w' \<and>
     errorCount w' \<le> lineCount w' \<and>
     run init_worker (take 2 [chunk_msg ''ok\<newline>ERROR x\<newline>'', end_msg]) = Inr v \<and>
     lineCount v = 2 \<and> errorCount v = 1 \<and> errorCount v \<le> lineCount v"
  using counters_invariant [of init_worker "js_string ''ERROR''"
      "chunk_msg ''ok\<newline>ERROR x\<newline>''" _ "[chunk_msg ''ok\<newline>ERROR x\<newline>'', end_msg]"]
  by (simp add: worker_eval)

text \<open>
  Claim C10. A message whose type is neither \<^verbatim>\<open>"chunk"\<close> nor \<^verbatim>\<open>"end"\<close> leaves the whole
  state of the worker as it was: the hash accumulator, the counters, the stream and the
  line reader, and the list of posted messages (so nothing is posted).
\<close>

theorem unknown_message_noop:
  "type m \<noteq> ''chunk'' \<Longrightarrow> type m \<noteq> ''end'' \<Longrightarrow> on_message w m = Inr w"
  by (simp add: on_message_def)

theorem unknown_message_noop_witness:
  "on_message init_worker \<lparr>type = ''ping'', data = ''abc''\<rparr> = Inr init_worker"
  using unknown_message_noop [of "\<lparr>type = ''ping'', data = ''abc''\<rparr>" init_worker] by simp

text \<open>
  Claim C8. For an empty upload (no chunk message, one end message) the worker posts
  exactly one message: the success report with \<open>lineCount = 0\<close>, \<open>errorCount = 0\<close> and
  \<open>finalHash\<close> the hexadecimal SHA-256 digest of the empty byte string.
\<close>

theorem empty_upload_report:
  "run init_worker [end_msg] =
     Inr (init_worker\<lparr>hash_finalized := True, stream_ended := True,
            posted := [JObj [(''status'', JStr ''success''), (''finalHash'', JStr (sha256_hex [])),
                             (''lineCount'', JNum 0), (''errorCount'', JNum 0)]]\<rparr>) \<and>
   sha256_hex [] = ''e3b0c44298fc1c149afbf4c8996fb92427ae41e4649b934ca495991b7852b855''"
  by (simp add: worker_eval report_msg_def sha256_hex_empty)

text \<open>
  Claim C4. The input \<^verbatim>\<open>"a\nb\nc"\<close> gives \<open>lineCount = 3\<close>, and so does \<^verbatim>\<open>"a\nb\nc\n"\<close>
  (the empty text after the last line ending is no line, a non-empty one is one last
  line); the four lines \<^verbatim>\<open>ok\<close>, \<^verbatim>\<open>ERROR x\<close>, \<^verbatim>\<open>CRITICAL y\<close>, \<^verbatim>\<open>ok\<close> give
  \<open>lineCount = 4\<close> and \<open>errorCount = 2\<close>, with or without a final line feed.
\<close>

theorem line_count_examples:
  "(\<exists>w. run init_worker [chunk_msg ''a\<newline>b\<newline>c'', end_msg] = Inr w \<and> lineCount w = 3) \<and>
   (\<exists>w. run init_worker [chunk_msg ''a\<newline>b\<newline>c\<newline>'', end_msg] = Inr w \<and> lineCount w = 3) \<and>
   (\<exists>w. run init_worker [chunk_msg ''ok\<newline>ERROR x\<newline>CRITICAL y\<newline>ok'', end_msg] = Inr w \<and>
        lineCount w = 4 \<and> errorCount w = 2) \<and>
   (\<exists>w. run init_worker [chunk_msg ''ok\<newline>ERROR x\<newline>CRITICAL y\<newline>ok\<newline>'', end_msg] = Inr w \<and>
        lineCount w = 4 \<and> errorCount w = 2)"
  by (simp add: worker_eval)

subsection \<open>Chunk boundaries\<close>

lemma foldl_on_line_eq:
  "foldl on_line w ls =
     w\<lparr>lineCount := lineCount w + length ls,
       errorCount := errorCount w + length (filter is_error_line ls)\<rparr>"
  by (induction ls arbitrary: w) (simp_all add: on_line_def Let_def is_error_line_def)

lemma scan_cr_irrelevant: "c \<noteq> 10 \<Longrightarrow> scan buf True (c # cs) = scan buf False (c # cs)"
  by simp

lemma scan_append:
  "scan buf cr (a @ b) =
     (case scan buf cr a of (l1, buf1, cr1) \<Rightarrow>
        (case scan buf1 cr1 b of (l2, buf2, cr2) \<Rightarrow> (l1 @ l2, buf2, cr2)))"
proof (induction a arbitrary: buf cr)
  case Nil
  show ?case by (simp split: prod.splits)
next
  case (Cons c a)
  show ?case
    by (simp add: Cons.IH split: prod.splits)
qed

lemma scan_no_ending:
  "\<not> list_ex is_line_ending s \<Longrightarrow> scan buf False s = ([], buf @ s, False)"
  by (induction s arbitrary: buf) (auto simp: is_line_ending_def)

lemma scan_buffer_clean:
  "\<not> list_ex is_line_ending buf \<Longrightarrow> \<not> list_ex is_line_ending (fst (snd (scan buf cr s)))"
proof (induction s arbitrary: buf cr)
  case Nil
  then show ?case by simp
next
  case (Cons c s)
  have e: "\<not> list_ex is_line_ending (fst (snd (scan [] (c = 13) s)))"
    using Cons.IH [of "[]" "c = 13"] by simp
  have n: "\<not> is_line_ending c \<Longrightarrow> \<not> list_ex is_line_ending (fst (snd (scan (buf @ [c]) False s)))"
    using Cons.IH [of "buf @ [c]" False] Cons.prems by simp
  have t: "\<not> list_ex is_line_ending (fst (snd (scan buf False s)))"
    using Cons.IH [of buf False] Cons.prems by simp
  from e n t show ?case
    by (cases "scan [] (c = 13) s") auto
qed

lemma split_lines_scan:
  "split_lines cur s = (fst (scan cur False s), fst (snd (scan cur False s))) \<and>
   (s \<noteq> [] \<longrightarrow> snd (snd (scan cur False s)) = (last s = 13))"
proof (induction cur s rule: split_lines.induct)
  case (1 cur)
  show ?case by simp
next
  case (2 cur c)
  show ?case by (auto simp: is_line_ending_def)
next
  case (3 cur c d cs)
  show ?case
  proof (cases "c = 13 \<and> d = 10")
    case True
    with 3 show ?thesis
      by (cases "scan [] False cs") (auto simp: is_line_ending_def)
  next
    case False
    show ?thesis
    proof (cases "is_line_ending c")
      case True
      have "scan [] (c = 13) (d # cs) = scan [] False (d # cs)"
        using False by (cases "c = 13") simp_all
      with 3 False True show ?thesis
        by (cases "scan [] False (d # cs)") (auto simp del: scan.simps(2) simp add: scan.simps(2) [of cur False c "d # cs"])
    next
      case nend: False
      with 3 False show ?thesis by (auto simp: is_line_ending_def)
    qed
  qed
qed

lemma scan_prefix_clean:
  "\<not> list_ex is_line_ending buf \<Longrightarrow> scan cur False (buf @ s) = scan (cur @ buf) False s"
  by (induction buf arbitrary: cur) (auto simp: is_line_ending_def)

lemma normalWrite_empty: "normalWrite w [] = w\<lparr>sawReturn := False\<rparr>"
  by (simp add: normalWrite_def)

lemma scan_strip:
  "s \<noteq> [] \<Longrightarrow>
   scan buf cr s = scan buf False (if cr \<and> startsWith s [10] then tl s else s)"
  by (cases s; cases cr) auto

lemma normalWrite_scan:
  assumes "s \<noteq> []" and "\<not> list_ex is_line_ending (line_buffer w)"
  shows "normalWrite w s =
     (case scan (line_buffer w) (sawReturn w) s of
        (ls, buf', cr') \<Rightarrow> foldl on_line (w\<lparr>line_buffer := buf', sawReturn := cr'\<rparr>) ls)"
proof -
  define str where "str = (if sawReturn w \<and> startsWith s [10] then tl s else s)"
  have sc: "scan (line_buffer w) (sawReturn w) s = scan (line_buffer w) False str"
    unfolding str_def using assms(1) by (rule scan_strip)
  show ?thesis
  proof (cases "list_ex is_line_ending str")
    case True
    then have ne: "str \<noteq> []" by auto
    have j: "scan [] False (line_buffer w @ str) = scan (line_buffer w) False str"
      using scan_prefix_clean [OF assms(2), of "[]" str] by simp
    have l: "last (line_buffer w @ str) = last str" using ne by simp
    from split_lines_scan [of "[]" "line_buffer w @ str"] split_lines_scan [of "line_buffer w" str] ne
    have sp: "split_lines [] (line_buffer w @ str) =
                (fst (scan (line_buffer w) False str), fst (snd (scan (line_buffer w) False str)))"
      and cr: "snd (snd (scan (line_buffer w) False str)) = (last str = 13)"
      by (simp_all add: j)
    show ?thesis
      unfolding sc
      using True sp cr l
      by (cases "scan (line_buffer w) False str")
         (simp add: normalWrite_def Let_def str_def [symmetric])
  next
    case False
    from scan_no_ending [OF False, of "line_buffer w"] False show ?thesis
      unfolding sc
      by (simp add: normalWrite_def Let_def str_def [symmetric])
  qed
qed

lemma dec_inv_init: "dec_inv utf8_init"
  by (simp add: dec_inv_def utf8_init_def)

lemma dec_inv_lead: "dec_inv (fst (utf8_lead b))"
  by (auto simp: dec_inv_def utf8_lead_def utf8_init_def)

lemma lead_silent: "snd (utf8_lead b) = [] \<Longrightarrow> bytes_needed (fst (utf8_lead b)) \<noteq> 0"
  by (auto simp: utf8_lead_def utf8_init_def split: if_splits)

lemma dec_inv_step: "dec_inv st \<Longrightarrow> dec_inv (fst (utf8_step st b))"
  unfolding utf8_step_def using dec_inv_lead [of b]
  by (auto simp: dec_inv_def utf8_init_def)

lemma step_silent: "snd (utf8_step st b) = [] \<Longrightarrow> bytes_needed (fst (utf8_step st b)) \<noteq> 0"
  unfolding utf8_step_def using lead_silent [of b]
  by (auto split: if_splits)

lemma step_pending_out:
  "bytes_needed st \<noteq> 0 \<Longrightarrow> dec_inv st \<Longrightarrow> snd (utf8_step st b) \<noteq> [] \<Longrightarrow>
   hd (snd (utf8_step st b)) \<noteq> 10"
  by (auto simp: utf8_step_def dec_inv_def split: if_splits)

lemma utf8_write_append:
  "utf8_write st (a @ b) =
     (case utf8_write st a of (st1, o1) \<Rightarrow>
        (case utf8_write st1 b of (st2, o2) \<Rightarrow> (st2, o1 @ o2)))"
  by (induction a arbitrary: st) (simp_all split: prod.splits)

lemma dec_inv_write: "dec_inv st \<Longrightarrow> dec_inv (fst (utf8_write st bs))"
proof (induction bs arbitrary: st)
  case Nil
  then show ?case by simp
next
  case (Cons b bs)
  from Cons.IH [OF dec_inv_step [OF Cons.prems, of "of_char b"]]
  show ?case by (auto split: prod.splits)
qed

lemma write_silent:
  "bs \<noteq> [] \<Longrightarrow> snd (utf8_write st bs) = [] \<Longrightarrow> bytes_needed (fst (utf8_write st bs)) \<noteq> 0"
proof (induction bs arbitrary: st)
  case Nil
  then show ?case by simp
next
  case (Cons b bs)
  obtain st1 o1 where s1: "utf8_step st (of_char b) = (st1, o1)" by (cases "utf8_step st (of_char b)")
  with Cons.prems have o1: "o1 = []" and o2: "snd (utf8_write st1 bs) = []"
    by (auto split: prod.splits)
  from step_silent [of st "of_char b"] s1 o1 have p1: "bytes_needed st1 \<noteq> 0" by simp
  show ?case
  proof (cases "bs = []")
    case True
    with s1 p1 show ?thesis by simp
  next
    case False
    from Cons.IH [OF False o2] s1 show ?thesis by (auto split: prod.splits)
  qed
qed

lemma write_pending_out:
  "bytes_needed st \<noteq> 0 \<Longrightarrow> dec_inv st \<Longrightarrow> snd (utf8_write st bs) \<noteq> [] \<Longrightarrow>
   hd (snd (utf8_write st bs)) \<noteq> 10"
proof (induction bs arbitrary: st)
  case Nil
  then show ?case by simp
next
  case (Cons b bs)
  obtain st1 o1 where s1: "utf8_step st (of_char b) = (st1, o1)" by (cases "utf8_step st (of_char b)")
  obtain st2 o2 where s2: "utf8_write st1 bs = (st2, o2)" by (cases "utf8_write st1 bs")
  show ?case
  proof (cases "o1 = []")
    case True
    from step_silent [of st "of_char b"] s1 True have p1: "bytes_needed st1 \<noteq> 0" by simp
    from dec_inv_step [OF Cons.prems(2), of "of_char b"] s1 have i1: "dec_inv st1" by simp
    from Cons.prems(3) s1 s2 True have "snd (utf8_write st1 bs) \<noteq> []" by simp
    from Cons.IH [OF p1 i1 this] s1 s2 True show ?thesis by simp
  next
    case False
    from step_pending_out [OF Cons.prems(1,2), of "of_char b"] s1 False have "hd o1 \<noteq> 10" by simp
    with s1 s2 False show ?thesis by simp
  qed
qed

lemma tracks_init: "tracks init_worker []"
  by (simp add: tracks_def init_worker_def)

lemma tracks_push:
  assumes "tracks w B"
  shows "tracks (stream_push (w\<lparr>hash_input := hash_input w @ c\<rparr>) c) (B @ c)"
proof (cases "c = []")
  case True
  with assms show ?thesis
    by (auto simp: stream_push_def tracks_def split: prod.splits)
next
  case False
  obtain dec tx where d: "utf8_write utf8_init B = (dec, tx)" by (cases "utf8_write utf8_init B")
  obtain ls buf cr where sc: "scan [] False tx = (ls, buf, cr)" by (cases "scan [] False tx")
  obtain dec' s where d': "utf8_write dec c = (dec', s)" by (cases "utf8_write dec c")
  obtain ls2 buf2 cr2 where sc2: "scan buf cr s = (ls2, buf2, cr2)" by (cases "scan buf cr s")
  from assms d sc have w:
    "hash_input w = B" "hash_finalized w = False" "stream_ended w = False" "posted w = []"
    "decoder w = dec" "line_buffer w = buf" "lineCount w = length ls"
    "errorCount w = length (filter is_error_line ls)"
    and cr: "sawReturn w = cr \<or> (sawReturn w = False \<and> bytes_needed dec \<noteq> 0)"
    by (simp_all add: tracks_def)
  have dB: "utf8_write utf8_init (B @ c) = (dec', tx @ s)"
    by (simp add: utf8_write_append d d')
  have scB: "scan [] False (tx @ s) = (ls @ ls2, buf2, cr2)"
    by (simp add: scan_append sc sc2)
  have clean: "\<not> list_ex is_line_ending buf"
    using scan_buffer_clean [of "[]" False tx] sc by simp
  have inv: "dec_inv dec"
    using dec_inv_write [OF dec_inv_init, of B] d by simp
  define w0 where "w0 = w\<lparr>hash_input := hash_input w @ c, decoder := dec'\<rparr>"
  have push: "stream_push (w\<lparr>hash_input := hash_input w @ c\<rparr>) c = normalWrite w0 s"
    using False by (simp add: stream_push_def w d' w0_def)
  show ?thesis
  proof (cases "s = []")
    case True
    from write_silent [OF False, of dec] d' True have p: "bytes_needed dec' \<noteq> 0" by simp
    from sc2 True have e: "ls2 = []" "buf2 = buf" by simp_all
    have "normalWrite w0 s = w0\<lparr>sawReturn := False\<rparr>"
      using True by (simp add: normalWrite_empty)
    then show ?thesis
      unfolding push tracks_def dB using scB e p
      by (simp add: w0_def w)
  next
    case ne: False
    have same: "scan buf (sawReturn w) s = scan buf cr s"
    proof (cases "sawReturn w = cr")
      case True
      then show ?thesis by simp
    next
      case diff: False
      with cr have nsr: "\<not> sawReturn w" and pend: "bytes_needed dec \<noteq> 0" and crT: "cr" by auto
      from write_pending_out [OF pend inv, of c] d' ne have "hd s \<noteq> 10" by simp
      with ne nsr crT show ?thesis
        by (cases s) simp_all
    qed
    have lb: "line_buffer w0 = buf" and sr: "sawReturn w0 = sawReturn w"
      by (simp_all add: w0_def w)
    have "normalWrite w0 s = foldl on_line (w0\<lparr>line_buffer := buf2, sawReturn := cr2\<rparr>) ls2"
      using normalWrite_scan [of s w0] ne clean
      by (simp add: lb sr same sc2)
    then show ?thesis
      unfolding push tracks_def dB using scB
      by (simp add: foldl_on_line_eq w0_def w)
  qed
qed

lemma tracks_fresh: "tracks w B \<Longrightarrow> hash_finalized w = False"
  by (auto simp: tracks_def split: prod.splits)

lemma tracks_chunk:
  "tracks w B \<Longrightarrow> \<exists>w'. on_message w (chunk_msg c) = Inr w' \<and> tracks w' (B @ c)"
  using tracks_push [of w B c] tracks_fresh [of w B]
  by (simp add: on_message_def chunk_msg_def)

lemma run_chunks:
  "tracks w B \<Longrightarrow> \<exists>w'. run w (map chunk_msg cs) = Inr w' \<and> tracks w' (B @ concat cs)"
proof (induction cs arbitrary: w B)
  case Nil
  then show ?case by simp
next
  case (Cons c cs)
  from tracks_chunk [OF Cons.prems, of c] obtain w1
    where 1: "on_message w (chunk_msg c) = Inr w1" and 2: "tracks w1 (B @ c)" by blast
  from Cons.IH [OF 2] 1 show ?case by simp
qed

lemma tracks_end:
  assumes "tracks w B"
  shows "\<exists>w'. on_message w end_msg = Inr w' \<and> posted w' = [analysis B]"
proof -
  obtain dec tx where d: "utf8_write utf8_init B = (dec, tx)" by (cases "utf8_write utf8_init B")
  obtain ls buf cr where sc: "scan [] False tx = (ls, buf, cr)" by (cases "scan [] False tx")
  from assms d sc have w:
    "hash_input w = B" "hash_finalized w = False" "stream_ended w = False" "posted w = []"
    "decoder w = dec" "line_buffer w = buf" "lineCount w = length ls"
    "errorCount w = length (filter is_error_line ls)"
    by (simp_all add: tracks_def)
  have al: "all_lines B = (if buf = [] then ls else ls @ [buf])"
    by (simp add: all_lines_def d sc)
  have "posted (stream_end w) = [analysis B]"
    by (simp add: stream_end_def on_close_def Let_def analysis_def al w
                  on_line_def is_error_line_def)
  then show ?thesis by (simp add: on_message_def end_msg_def)
qed

lemma run_append:
  "run w (a @ b) = (case run w a of Inl e \<Rightarrow> Inl e | Inr w' \<Rightarrow> run w' b)"
  by (induction a arbitrary: w) (simp_all split: sum.splits)

lemma run_upload:
  "\<exists>w. run init_worker (map chunk_msg cs @ [end_msg]) = Inr w \<and> posted w = [analysis (concat cs)]"
proof -
  from run_chunks [OF tracks_init, of cs] obtain w1
    where 1: "run init_worker (map chunk_msg cs) = Inr w1" and 2: "tracks w1 (concat cs)" by auto
  from tracks_end [OF 2] obtain w2
    where 3: "on_message w1 end_msg = Inr w2" and 4: "posted w2 = [analysis (concat cs)]" by blast
  show ?thesis by (simp add: run_append 1 3 4)
qed

text \<open>
  Two sanity checks of the line reader across chunk boundaries: a carriage return and its
  line feed in different chunks end one line, and so does U+2028 cut inside its three
  bytes.
\<close>

lemma line_ending_across_chunks:
  "(\<exists>w. run init_worker [chunk_msg [CHR ''a'', CHR 0x0D], chunk_msg [CHR 0x0A, CHR ''b''], end_msg] = Inr w \<and>
        lineCount w = 2) \<and>
   (\<exists>w. run init_worker [chunk_msg [CHR ''a'', CHR 0xE2, CHR 0x80], chunk_msg [CHR 0xA8, CHR ''b''], end_msg] = Inr w \<and>
        lineCount w = 2)"
  by (simp add: worker_eval)

text \<open>
  Claim C3. For every list of chunks, the worker that receives them in order and then the
  end message posts the same report as the worker that receives their concatenation as
  one chunk and then the end message: the same \<open>finalHash\<close> (the digest of the
  concatenation), the same \<open>lineCount\<close> and the same \<open>errorCount\<close>.
\<close>

theorem chunk_boundary_invariance:
  "\<exists>n e.
     (\<exists>w. run init_worker (map chunk_msg cs @ [end_msg]) = Inr w \<and>
          posted w = [report_msg (sha256_hex (concat cs)) n e]) \<and>
     (\<exists>w. run init_worker [chunk_msg (concat cs), end_msg] = Inr w \<and>
          posted w = [report_msg (sha256_hex (concat cs)) n e])"
proof -
  from run_upload [of cs] obtain w1
    where 1: "run init_worker (map chunk_msg cs @ [end_msg]) = Inr w1"
      and 2: "posted w1 = [analysis (concat cs)]" by blast
  from run_upload [of "[concat cs]"] obtain w2
    where 3: "run init_worker [chunk_msg (concat cs), end_msg] = Inr w2"
      and 4: "posted w2 = [analysis (concat cs)]" by auto
  from 1 2 3 4 show ?thesis unfolding analysis_def by blast
qed

section \<open>Properties of the Request Server\<close>

lemma length_hex_word: "length (hex_word w) = 8"
  by (simp add: hex_word_def)

lemma list8: "length v = 8 \<Longrightarrow> \<exists>a b c d e f g h. v = [a, b, c, d, e, f, g, h]"
  by (auto simp: length_Suc_conv eval_nat_numeral)

lemma length_sha_round: "length v = 8 \<Longrightarrow> length (sha_round v k w) = 8"
  using list8 [of v] by (auto simp: Let_def)

lemma length_rounds: "length v = 8 \<Longrightarrow> length (rounds ks v w) = 8"
  by (induction ks arbitrary: v w) (simp_all add: length_sha_round)

lemma length_compress: "length hs = 8 \<Longrightarrow> length (compress hs blk) = 8"
  by (simp add: compress_def length_rounds)

lemma length_foldl_compress: "length hs = 8 \<Longrightarrow> length (foldl compress hs bl) = 8"
  by (induction bl arbitrary: hs) (simp_all add: length_compress)

lemma length_sha256: "length (sha256 bs) = 8"
  by (simp add: sha256_def Let_def length_foldl_compress H256_def)

lemma length_concat_hex: "length (concat (map hex_word ws)) = 8 * length ws"
  by (induction ws) (simp_all add: length_hex_word)

lemma length_sha256_hex: "length (sha256_hex bs) = 64"
  by (simp add: sha256_hex_def length_concat_hex length_sha256)

lemma typeof_string: "typeof v = ''string'' \<longleftrightarrow> (\<exists>s. v = JStr s)"
  by (cases v) simp_all

lemma typeof_number: "typeof v = ''number'' \<longleftrightarrow> (\<exists>q. v = JNum q)"
  by (cases v) simp_all

lemma validate_iff:
  "validate report = Inr () \<longleftrightarrow>
     (get_prop report ''status'' = Inr (JStr ''success'') \<and>
      (\<exists>h. get_prop report ''finalHash'' = Inr (JStr h) \<and> 10 < length h) \<and>
      (\<exists>q. get_prop report ''lineCount'' = Inr (JNum q)))"
  by (cases report)
     (auto simp: validate_def typeof_string typeof_number split: sum.splits option.splits)

lemma validate_errors:
  "validate report = Inl e \<Longrightarrow> (\<exists>m. e = AssertionError m) \<or> (\<exists>m. e = TypeError m)"
  by (cases report) (auto simp: validate_def split: sum.splits option.splits if_splits)

lemma on_report_rejected:
  "validate report = Inl e \<Longrightarrow> res srv = None \<Longrightarrow>
   on_report REPORTS_DIR io srv report =
     Inr (srv\<lparr>res := Some \<lparr>statusCode = (if is_AssertionError e then 400 else 500),
                            contentType = ''text/plain'',
                            body = Text (''Failed to process report: '' @ message_of e)\<rparr>\<rparr>)"
  by (simp add: on_report_def try_report_def respond_def)


lemma split_path_simple: "CHR ''/'' \<notin> set name \<Longrightarrow> split_path name = [name]"
  by (induction name) auto

lemma path_join_simple:
  assumes "CHR ''/'' \<notin> set name" and "name \<noteq> []" and "name \<noteq> ''.''" and "name \<noteq> ''..''"
  shows "path_join dir name = dir @ ''/'' @ name"
proof -
  from assms(2) have "last name \<in> set name" by (rule last_in_set)
  with assms(1) have "last name \<noteq> CHR ''/''" by metis
  with assms show ?thesis
    by (simp add: path_join_def split_path_simple Let_def)
qed

text \<open>A name with \<^verbatim>\<open>..\<close> in it is resolved, as Node does.\<close>

lemma path_join_dot_segments:
  "path_join ''/app/reports'' ''aaaaaaaaaa/../bbbbbbbbbbbb.json'' = ''/app/reports/bbbbbbbbbbbb.json'' \<and>
   path_join ''/app/reports'' ''../x.json'' = ''/app/x.json'' \<and>
   path_join ''/app/reports'' ''a//./b.json'' = ''/app/reports/a/b.json''"
  by (simp add: path_join_def parent_path_def Let_def)

lemma hex_digit_range: "hex_digit n \<in> set ''0123456789abcdef''"
proof -
  have "n mod 16 < length ''0123456789abcdef''" by simp
  then show ?thesis unfolding hex_digit_def by (rule nth_mem)
qed

lemma hex_digit_no_slash: "CHR ''/'' \<noteq> hex_digit n"
  using hex_digit_range [of n] by auto

lemma hex_word_no_slash: "CHR ''/'' \<notin> set (hex_word w)"
  by (auto simp: hex_word_def hex_digit_no_slash)

lemma sha256_hex_no_slash: "CHR ''/'' \<notin> set (sha256_hex bs)"
  using hex_word_no_slash by (auto simp: sha256_hex_def)

lemma path_join_digest:
  "path_join dir (sha256_hex bs @ ''.json'') = dir @ ''/'' @ sha256_hex bs @ ''.json''"
proof -
  have l: "length (sha256_hex bs @ ''.json'') = 69" by (simp add: length_sha256_hex)
  have "sha256_hex bs @ ''.json'' \<noteq> []" and "sha256_hex bs @ ''.json'' \<noteq> ''.''"
    and "sha256_hex bs @ ''.json'' \<noteq> ''..''"
    using l by auto
  moreover have "CHR ''/'' \<notin> set (sha256_hex bs @ ''.json'')"
    using sha256_hex_no_slash [of bs] by simp
  ultimately show ?thesis using path_join_simple by simp
qed

lemma on_report_accepted:
  "validate report = Inr () \<Longrightarrow> get_prop report ''finalHash'' = Inr (JStr h) \<Longrightarrow> res srv = None \<Longrightarrow>
   on_report REPORTS_DIR no_faults srv report =
     Inr (srv\<lparr>dirs := insert REPORTS_DIR (dirs srv),
              files := (files srv)(path_join REPORTS_DIR (h @ ''.json'') \<mapsto> Json report 2),
              res := Some \<lparr>statusCode = 200, contentType = ''application/json'',
                            body = Json (JObj (set_prop (own_props report) ''reportPath''
                                     (JStr (path_join REPORTS_DIR (h @ ''.json''))))) 0\<rparr>\<rparr>)"
  by (simp add: on_report_def try_report_def respond_def no_faults_def Let_def)

lemma validate_report_msg: "10 < length h \<Longrightarrow> validate (report_msg h n e) = Inr ()"
  by (simp add: validate_def report_msg_def)

lemma foldl_on_data:
  "foldl on_data srv chunks = srv\<lparr>to_worker := to_worker srv @ map chunk_msg chunks\<rparr>"
  by (induction chunks arbitrary: srv) (simp_all add: on_data_def)

lemma upload_ok:
  "upload REPORTS_DIR no_faults srv chunks =
     Inr (srv\<lparr>dirs := insert REPORTS_DIR (dirs srv),
              files := (files srv)(REPORTS_DIR @ ''/'' @ sha256_hex (concat chunks) @ ''.json''
                                     \<mapsto> Json (analysis (concat chunks)) 2),
              res := Some \<lparr>statusCode = 200, contentType = ''application/json'',
                            body = Json (JObj (set_prop (own_props (analysis (concat chunks))) ''reportPath''
                                     (JStr (REPORTS_DIR @ ''/'' @ sha256_hex (concat chunks) @ ''.json'')))) 0\<rparr>,
              to_worker := [], terminated := False, worker_alive := True\<rparr>)"
proof -
  obtain w where r: "run init_worker (map chunk_msg chunks @ [end_msg]) = Inr w"
    and p: "posted w = [analysis (concat chunks)]"
    using run_upload [of chunks] by blast
  define s0 where "s0 = srv\<lparr>res := None, to_worker := [], terminated := False, worker_alive := True\<rparr>"
  have v: "validate (analysis (concat chunks)) = Inr ()"
    unfolding analysis_def by (rule validate_report_msg) (simp add: length_sha256_hex)
  have g: "get_prop (analysis (concat chunks)) ''finalHash'' = Inr (JStr (sha256_hex (concat chunks)))"
    by (simp add: analysis_def report_msg_def)
  have tw: "to_worker (on_end (foldl on_data (srv\<lparr>res := None, to_worker := [], terminated := False,
                                                worker_alive := True\<rparr>) chunks))
              = map chunk_msg chunks @ [end_msg]"
    by (simp add: foldl_on_data on_end_def)
  have s2: "(on_end (foldl on_data (srv\<lparr>res := None, to_worker := [], terminated := False,
                                      worker_alive := True\<rparr>) chunks))
              \<lparr>to_worker := []\<rparr> = s0"
    by (simp add: foldl_on_data on_end_def s0_def)
  have "upload REPORTS_DIR no_faults srv chunks =
          deliver REPORTS_DIR no_faults s0 (posted w)"
    unfolding upload_def Let_def tw s2 r by simp
  also have "\<dots> = on_report REPORTS_DIR no_faults s0 (analysis (concat chunks))"
    unfolding p by (simp split: sum.splits)
  also have "\<dots> = Inr (s0\<lparr>dirs := insert REPORTS_DIR (dirs s0),
              files := (files s0)(REPORTS_DIR @ ''/'' @ sha256_hex (concat chunks) @ ''.json''
                                     \<mapsto> Json (analysis (concat chunks)) 2),
              res := Some \<lparr>statusCode = 200, contentType = ''application/json'',
                            body = Json (JObj (set_prop (own_props (analysis (concat chunks))) ''reportPath''
                                     (JStr (REPORTS_DIR @ ''/'' @ sha256_hex (concat chunks) @ ''.json'')))) 0\<rparr>\<rparr>)"
    using on_report_accepted [OF v g, of s0 REPORTS_DIR] by (simp add: s0_def path_join_digest)
  finally show ?thesis by (simp add: s0_def)
qed










text \<open>
  Claim C2, as the specification states it, fails: the body of a 400 answer is a plain
  text, not a JSON object with the property \<^verbatim>\<open>error\<close>.
\<close>

theorem response_bodies_counterexample:
  "on_report ''/app/reports'' no_faults init_server (JObj [(''status'', JStr ''error'')]) =
     Inr (init_server\<lparr>res := Some \<lparr>statusCode = 400, contentType = ''text/plain'',
            body = Text ''Failed to process report: Worker report status not success''\<rparr>\<rparr>) \<and>
   \<not> is_error_json (Text ''Failed to process report: Worker report status not success'')"
  by (simp add: on_report_def try_report_def validate_def respond_def init_server_def)

text \<open>
  Claim C2, amended. An upload whose file system calls do not fail is answered with 200
  and the JSON object of exactly the properties \<^verbatim>\<open>status\<close>, \<^verbatim>\<open>finalHash\<close>,
  \<^verbatim>\<open>lineCount\<close>, \<^verbatim>\<open>errorCount\<close> and \<^verbatim>\<open>reportPath\<close> (the hash and the error count
  under the names the worker gives them); a failed assertion is answered with 400, the
  content type \<^verbatim>\<open>text/plain\<close> and the text
  \<^verbatim>\<open>Failed to process report: <message of the assertion>\<close>.
\<close>

theorem response_bodies:
  "(\<exists>n e srv'. upload REPORTS_DIR no_faults srv chunks = Inr srv' \<and>
      res srv' = Some \<lparr>statusCode = 200, contentType = ''application/json'',
        body = Json (JObj [(''status'', JStr ''success''),
                           (''finalHash'', JStr (sha256_hex (concat chunks))),
                           (''lineCount'', JNum (of_nat n)),
                           (''errorCount'', JNum (of_nat e)),
                           (''reportPath'', JStr (REPORTS_DIR @ ''/'' @ sha256_hex (concat chunks) @ ''.json''))]) 0\<rparr>) \<and>
   (validate report = Inl (AssertionError m) \<and> res srv = None \<longrightarrow>
      on_report REPORTS_DIR io srv report =
        Inr (srv\<lparr>res := Some \<lparr>statusCode = 400, contentType = ''text/plain'',
                               body = Text (''Failed to process report: '' @ m)\<rparr>\<rparr>))"
proof -
  have a: "\<exists>n e srv'. upload REPORTS_DIR no_faults srv chunks = Inr srv' \<and>
      res srv' = Some \<lparr>statusCode = 200, contentType = ''application/json'',
        body = Json (JObj [(''status'', JStr ''success''),
                           (''finalHash'', JStr (sha256_hex (concat chunks))),
                           (''lineCount'', JNum (of_nat n)),
                           (''errorCount'', JNum (of_nat e)),
                           (''reportPath'', JStr (REPORTS_DIR @ ''/'' @ sha256_hex (concat chunks) @ ''.json''))]) 0\<rparr>"
    unfolding upload_ok by (simp add: analysis_def report_msg_def)
  have b: "validate report = Inl (AssertionError m) \<and> res srv = None \<longrightarrow>
      on_report REPORTS_DIR io srv report =
        Inr (srv\<lparr>res := Some \<lparr>statusCode = 400, contentType = ''text/plain'',
                               body = Text (''Failed to process report: '' @ m)\<rparr>\<rparr>)"
    using on_report_rejected [of report "AssertionError m" srv REPORTS_DIR io] by auto
  from a b show ?thesis by blast
qed

theorem response_bodies_witness:
  "validate (JObj [(''status'', JStr ''error'')]) = Inl (AssertionError ''Worker report status not success'') \<and>
   res init_server = None \<and>
   on_report ''/app/reports'' no_faults init_server (JObj [(''status'', JStr ''error'')]) =
     Inr (init_server\<lparr>res := Some \<lparr>statusCode = 400, contentType = ''text/plain'',
            body = Text ''Failed to process report: Worker report status not success''\<rparr>\<rparr>) \<and>
   (\<exists>n e srv'. upload ''/app/reports'' no_faults init_server [''ok'', ''ERROR''] = Inr srv' \<and>
      res srv' = Some \<lparr>statusCode = 200, contentType = ''application/json'',
        body = Json (JObj [(''status'', JStr ''success''),
                           (''finalHash'', JStr (sha256_hex ''okERROR'')),
                           (''lineCount'', JNum (of_nat n)),
                           (''errorCount'', JNum (of_nat e)),
                           (''reportPath'', JStr (''/app/reports/'' @ sha256_hex ''okERROR'' @ ''.json''))]) 0\<rparr>)"
  using response_bodies [of "''/app/reports''" init_server "[''ok'', ''ERROR'']"
          "JObj [(''status'', JStr ''error'')]" "''Worker report status not success''" no_faults]
  by (simp add: validate_def init_server_def)

text \<open>
  Claim C5. When a fault of the worker is signalled before any answer has been written,
  the server answers 500 with the text \<^verbatim>\<open>Processing error.\<close> The listener makes no call
  of \<^verbatim>\<open>terminate()\<close>: the worker whose \<^verbatim>\<open>'error'\<close> event fires has been terminated by
  Node, so it is already dead when the listener runs, and it is dead afterwards.
\<close>

theorem worker_error_response:
  "res srv = None \<Longrightarrow>
   worker_fault srv =
     Inr (srv\<lparr>worker_alive := False,
              res := Some \<lparr>statusCode = 500, contentType = ''text/plain'',
                            body = Text ''Processing error.''\<rparr>\<rparr>) \<and>
   worker_alive (srv\<lparr>worker_alive := False,
              res := Some \<lparr>statusCode = 500, contentType = ''text/plain'',
                            body = Text ''Processing error.''\<rparr>\<rparr>) = False"
  by (simp add: worker_fault_def on_worker_error_def respond_def)

theorem worker_error_response_witness:
  "res (init_server\<lparr>worker_alive := True\<rparr>) = None \<and>
   worker_alive (init_server\<lparr>worker_alive := True\<rparr>) = True \<and>
   worker_fault (init_server\<lparr>worker_alive := True\<rparr>) =
     Inr (init_server\<lparr>worker_alive := False,
              res := Some \<lparr>statusCode = 500, contentType = ''text/plain'',
                            body = Text ''Processing error.''\<rparr>\<rparr>)"
  using worker_error_response [of "init_server\<lparr>worker_alive := True\<rparr>"]
  by (simp add: init_server_def)

lemma upload_twice:
  assumes "concat cs1 = concat cs2"
  shows "\<exists>s1 r c.
     upload REPORTS_DIR no_faults srv cs1 = Inr s1 \<and>
     upload REPORTS_DIR no_faults s1 cs2 = Inr s1 \<and>
     res s1 = Some r \<and> statusCode r = 200 \<and>
     (\<exists>kvs. body r = Json (JObj kvs) 0 \<and>
        map_of kvs ''finalHash'' = Some (JStr (sha256_hex (concat cs1)))) \<and>
     files s1 = (files srv)(REPORTS_DIR @ ''/'' @ sha256_hex (concat cs1) @ ''.json'' \<mapsto> c) \<and>
     dom (files s1) = insert (REPORTS_DIR @ ''/'' @ sha256_hex (concat cs1) @ ''.json'') (dom (files srv))"
proof -
  define p where "p = REPORTS_DIR @ ''/'' @ sha256_hex (concat cs1) @ ''.json''"
  define c where "c = Json (analysis (concat cs1)) 2"
  define r where "r = \<lparr>statusCode = 200, contentType = ''application/json'',
      body = Json (JObj (set_prop (own_props (analysis (concat cs1))) ''reportPath'' (JStr p))) 0\<rparr>"
  define s1 where "s1 = srv\<lparr>dirs := insert REPORTS_DIR (dirs srv), files := (files srv)(p \<mapsto> c),
      res := Some r, to_worker := [], terminated := False, worker_alive := True\<rparr>"
  have 1: "upload REPORTS_DIR no_faults srv cs1 = Inr s1"
    by (simp add: upload_ok s1_def c_def r_def p_def)
  have 2: "upload REPORTS_DIR no_faults s1 cs2 = Inr s1"
    by (simp add: upload_ok assms [symmetric] s1_def c_def r_def p_def)
  have 3: "res s1 = Some r" and 4: "statusCode r = 200"
    by (simp_all add: s1_def r_def)
  have 5: "\<exists>kvs. body r = Json (JObj kvs) 0 \<and>
        map_of kvs ''finalHash'' = Some (JStr (sha256_hex (concat cs1)))"
    by (simp add: r_def analysis_def report_msg_def)
  have 6: "files s1 = (files srv)(p \<mapsto> c)" and 7: "dom (files s1) = insert p (dom (files srv))"
    by (simp_all add: s1_def)
  from 1 2 3 4 5 6 7 show ?thesis unfolding p_def by blast
qed

lemma on_report_twice:
  assumes "validate report = Inr ()" and "res srv = None"
    and "on_report REPORTS_DIR no_faults srv report = Inr s"
  shows "on_report REPORTS_DIR no_faults (s\<lparr>res := None\<rparr>) report = Inr s"
proof -
  from assms(1) validate_iff [of report] obtain h
    where h: "get_prop report ''finalHash'' = Inr (JStr h)" by blast
  from on_report_accepted [OF assms(1) h assms(2), of REPORTS_DIR] assms(3)
  have s: "s = srv\<lparr>dirs := insert REPORTS_DIR (dirs srv),
              files := (files srv)(path_join REPORTS_DIR (h @ ''.json'') \<mapsto> Json report 2),
              res := Some \<lparr>statusCode = 200, contentType = ''application/json'',
                            body = Json (JObj (set_prop (own_props report) ''reportPath''
                                     (JStr (path_join REPORTS_DIR (h @ ''.json''))))) 0\<rparr>\<rparr>"
    by simp
  have "res (s\<lparr>res := None\<rparr>) = None" by simp
  from on_report_accepted [OF assms(1) h this, of REPORTS_DIR] show ?thesis
    by (simp add: s)
qed

text \<open>
  Claim C6. Two uploads of the same bytes, in whatever chunks, with no file system
  failure: both are answered with 200 and the same body, whose \<^verbatim>\<open>finalHash\<close> is the
  digest of the bytes; the first adds to the files exactly the one at
  \<^verbatim>\<open>REPORTS_DIR/<finalHash>.json\<close>, and the second leaves the server as the first left
  it. Handling any accepted report a second time rewrites the same file with the same
  content and gives the same answer.
\<close>

theorem identical_uploads:
  "(concat cs1 = concat cs2 \<longrightarrow>
     (\<exists>s1 r c.
        upload REPORTS_DIR no_faults srv cs1 = Inr s1 \<and>
        upload REPORTS_DIR no_faults s1 cs2 = Inr s1 \<and>
        res s1 = Some r \<and> statusCode r = 200 \<and>
        (\<exists>kvs. body r = Json (JObj kvs) 0 \<and>
           map_of kvs ''finalHash'' = Some (JStr (sha256_hex (concat cs1)))) \<and>
        files s1 = (files srv)(REPORTS_DIR @ ''/'' @ sha256_hex (concat cs1) @ ''.json'' \<mapsto> c) \<and>
        dom (files s1) =
          insert (REPORTS_DIR @ ''/'' @ sha256_hex (concat cs1) @ ''.json'') (dom (files srv)))) \<and>
   (validate report = Inr () \<and> res srv = None \<and>
    on_report REPORTS_DIR no_faults srv report = Inr s \<longrightarrow>
      on_report REPORTS_DIR no_faults (s\<lparr>res := None\<rparr>) report = Inr s)"
  using upload_twice [of cs1 cs2 REPORTS_DIR srv] on_report_twice [of report srv REPORTS_DIR s]
  by blast

theorem identical_uploads_witness:
  "concat [''ab'', ''c''] = concat [''abc''] \<and>
   (\<exists>s1 r c.
     upload ''/app/reports'' no_faults init_server [''ab'', ''c''] = Inr s1 \<and>
     upload ''/app/reports'' no_faults s1 [''abc''] = Inr s1 \<and>
     res s1 = Some r \<and> statusCode r = 200 \<and>
     (\<exists>kvs. body r = Json (JObj kvs) 0 \<and> map_of kvs ''finalHash'' = Some (JStr (sha256_hex ''abc''))) \<and>
     files s1 = (files init_server)(''/app/reports/'' @ sha256_hex ''abc'' @ ''.json'' \<mapsto> c) \<and>
     dom (files s1) = {''/app/reports/'' @ sha256_hex ''abc'' @ ''.json''}) \<and>
   validate (JObj [(''status'', JStr ''success''), (''finalHash'', JStr ''0123456789ab''), (''lineCount'', JNum 3)])
     = Inr () \<and>
   res init_server = None \<and>
   (\<exists>s. on_report ''/app/reports'' no_faults init_server
          (JObj [(''status'', JStr ''success''), (''finalHash'', JStr ''0123456789ab''), (''lineCount'', JNum 3)]) = Inr s \<and>
        on_report ''/app/reports'' no_faults (s\<lparr>res := None\<rparr>)
          (JObj [(''status'', JStr ''success''), (''finalHash'', JStr ''0123456789ab''), (''lineCount'', JNum 3)]) = Inr s)"
proof -
  let ?R = "JObj [(''status'', JStr ''success''), (''finalHash'', JStr ''0123456789ab''), (''lineCount'', JNum 3)]"
  have v: "validate ?R = Inr ()" by (simp add: validate_def)
  have n: "res init_server = None" by (simp add: init_server_def)
  obtain s where s: "on_report ''/app/reports'' no_faults init_server ?R = Inr s"
    using on_report_accepted [OF v _ n, of "''0123456789ab''" "''/app/reports''"] by simp
  from identical_uploads [of "[''ab'', ''c'']" "[''abc'']" "''/app/reports''" init_server ?R s] v n s
  show ?thesis by (simp add: init_server_def)
qed

text \<open>
  Claim C7, as the specification states it, fails: no bound holds for the number of
  messages waiting for the worker.
\<close>

theorem forwarding_unbounded_counterexample:
  "\<not> (\<exists>K. \<forall>chunks. length (to_worker (foldl on_data init_server chunks)) \<le> K)"
proof
  assume "\<exists>K. \<forall>chunks. length (to_worker (foldl on_data init_server chunks)) \<le> K"
  then obtain K where "\<forall>chunks. length (to_worker (foldl on_data init_server chunks)) \<le> K" ..
  then have "length (to_worker (foldl on_data init_server (replicate (Suc K) []))) \<le> K" ..
  then show False unfolding foldl_on_data by (simp add: init_server_def)
qed

text \<open>
  Claim C7, amended. The \<^verbatim>\<open>'data'\<close> listener posts every chunk of the body to the
  worker at once, whatever is waiting already, and changes nothing else (it never
  pauses the request): after the chunks \<open>c\<^sub>1, \<dots>, c\<^sub>n\<close>, with no message taken by the
  worker meanwhile, \<open>n\<close> more messages are waiting.
\<close>

theorem chunks_forwarded:
  "on_data srv chunk = srv\<lparr>to_worker := to_worker srv @ [chunk_msg chunk]\<rparr> \<and>
   foldl on_data srv chunks = srv\<lparr>to_worker := to_worker srv @ map chunk_msg chunks\<rparr> \<and>
   length (to_worker (foldl on_data srv chunks)) = length (to_worker srv) + length chunks"
  by (simp add: foldl_on_data on_data_def)

end
